theory Spec2Isabelle
  imports Main
begin

section \<open>Client reconnector: the useWebSocket hook\<close>

text \<open>
  The hook keeps two pieces of React state (\<open>data\<close>, \<open>status\<close>) and four refs
  (\<open>wsRef\<close>, \<open>reconnectTimeoutRef\<close>, \<open>retryCountRef\<close>, \<open>isMountedRef\<close>). The browser
  objects it talks to are made explicit in the same record:
  \<^item> \<open>token\<close> is the \<open>serverpilot_token\<close> entry of localStorage (\<open>None\<close> for \<open>null\<close>);
  \<^item> \<open>sockets\<close> holds the readyState of every WebSocket the hook has constructed, in
    order of construction; a socket is named by its index;
  \<^item> \<open>timers\<close> is the table of pending \<open>setTimeout(connect, delay)\<close> calls as pairs
    (handle, deadline in ms), \<open>nextTimer\<close> the next fresh handle and \<open>clock\<close> the
    current time in ms. Timer handles are positive integers, hence truthy: a ref holding a
    handle is \<open>Some h\<close>, a ref holding \<open>null\<close> is \<open>None\<close>;
  \<^item> \<open>console\<close> is what the hook has written with console.log and console.warn.

  Every handler runs to completion and its state updates are taken as applied when it
  returns. \<open>retryCountRef\<close> is a natural number: the JavaScript number is exact for every
  count below \<open>2^53\<close>, and \<open>Math.min(1000 * Math.pow(2, n), 30000)\<close> is exact for every
  such \<open>n\<close> (the product is a power of two times 125, or infinity, whose minimum with
  30000 is 30000).
\<close>

datatype readyState = CONNECTING | OPEN | CLOSING | CLOSED

datatype console_entry =
    Warn_parse_failed
  | Log_reconnecting nat
  | Warn_error

record 'j hook =
  data :: "'j option"
  status :: string
  wsRef :: "nat option"
  reconnectTimeoutRef :: "nat option"
  retryCountRef :: nat
  isMountedRef :: bool
  token :: "string option"
  sockets :: "readyState list"
  timers :: "(nat \<times> nat) list"
  nextTimer :: nat
  clock :: nat
  console :: "console_entry list"

text \<open>The values of \<open>useState\<close> and \<open>useRef\<close> on the first render.\<close>

definition hook_init :: "string option \<Rightarrow> 'j hook" where
  "hook_init tok =
     \<lparr> data = None, status = ''disconnected'', wsRef = None, reconnectTimeoutRef = None,
       retryCountRef = 0, isMountedRef = True, token = tok, sockets = [], timers = [],
       nextTimer = 1, clock = 0, console = [] \<rparr>"

text \<open>\<open>!token\<close>: the entry is absent (\<open>null\<close>) or the empty string.\<close>

definition token_missing :: "string option \<Rightarrow> bool" where
  "token_missing t = (case t of None \<Rightarrow> True | Some v \<Rightarrow> v = [])"

text \<open>\<open>clearTimeout(ref)\<close>: a no-op on \<open>null\<close> and on a handle that is not pending.\<close>

definition clearTimeout :: "nat option \<Rightarrow> (nat \<times> nat) list \<Rightarrow> (nat \<times> nat) list" where
  "clearTimeout r ts =
     (case r of None \<Rightarrow> ts | Some h \<Rightarrow> filter (\<lambda>(h', t). h' \<noteq> h) ts)"

text \<open>
  \<open>ws.close()\<close> on socket \<open>k\<close>: a connecting or open socket starts closing; the close
  event itself arrives later. On a closing or closed socket it does nothing.
\<close>

definition ws_close :: "nat \<Rightarrow> readyState list \<Rightarrow> readyState list" where
  "ws_close k socks =
     (if k < length socks \<and> (socks ! k = CONNECTING \<or> socks ! k = OPEN)
      then socks[k := CLOSING] else socks)"

definition reconnect_delay :: "nat \<Rightarrow> nat" where
  "reconnect_delay n = min (1000 * 2 ^ n) 30000"

definition connect :: "'j hook \<Rightarrow> 'j hook" where
  "connect s =
     (if \<not> isMountedRef s then s
      else if token_missing (token s) then s\<lparr>status := ''disconnected''\<rparr>
      else s\<lparr> status := ''connecting'',
              sockets := sockets s @ [CONNECTING],
              wsRef := Some (length (sockets s)) \<rparr>)"

definition onopen :: "'j hook \<Rightarrow> 'j hook" where
  "onopen s =
     (if \<not> isMountedRef s then s
      else s\<lparr>status := ''connected'', retryCountRef := 0\<rparr>)"

text \<open>\<open>parse\<close> stands for \<open>JSON.parse\<close>: \<open>None\<close> when it throws.\<close>

definition onmessage :: "(string \<Rightarrow> 'j option) \<Rightarrow> string \<Rightarrow> 'j hook \<Rightarrow> 'j hook" where
  "onmessage parse payload s =
     (if \<not> isMountedRef s then s
      else (case parse payload of
              Some parsed \<Rightarrow> s\<lparr>data := Some parsed\<rparr>
            | None \<Rightarrow> s\<lparr>console := console s @ [Warn_parse_failed]\<rparr>))"

definition onclose :: "'j hook \<Rightarrow> 'j hook" where
  "onclose s =
     (if \<not> isMountedRef s then s
      else (let delay = reconnect_delay (retryCountRef s)
            in s\<lparr> status := ''disconnected'',
                    wsRef := None,
                    retryCountRef := retryCountRef s + 1,
                    console := console s @ [Log_reconnecting delay],
                    timers := timers s @ [(nextTimer s, clock s + delay)],
                    nextTimer := nextTimer s + 1,
                    reconnectTimeoutRef := Some (nextTimer s) \<rparr>))"

text \<open>\<open>ws.onerror\<close> of socket \<open>k\<close>; it has no mounted check.\<close>

definition onerror :: "nat \<Rightarrow> 'j hook \<Rightarrow> 'j hook" where
  "onerror k s =
     s\<lparr> console := console s @ [Warn_error], sockets := ws_close k (sockets s) \<rparr>"

text \<open>The body of the mount effect, its cleanup, and the exported \<open>disconnect\<close>.\<close>

definition mount_effect :: "'j hook \<Rightarrow> 'j hook" where
  "mount_effect s = connect (s\<lparr>isMountedRef := True\<rparr>)"

definition close_current :: "'j hook \<Rightarrow> 'j hook" where
  "close_current s =
     (case wsRef s of
        None \<Rightarrow> s
      | Some k \<Rightarrow> s\<lparr>sockets := ws_close k (sockets s), wsRef := None\<rparr>)"

definition cleanup :: "'j hook \<Rightarrow> 'j hook" where
  "cleanup s =
     close_current
       (s\<lparr> isMountedRef := False,
            timers := clearTimeout (reconnectTimeoutRef s) (timers s) \<rparr>)"

definition disconnect :: "'j hook \<Rightarrow> 'j hook" where
  "disconnect s = (cleanup s)\<lparr>status := ''disconnected''\<rparr>"

text \<open>
  Time passing: \<open>d\<close> ms elapse with no other event. Every pending timer whose deadline
  is reached fires; its callback is \<open>connect\<close>, which schedules nothing itself.
\<close>

definition advance :: "nat \<Rightarrow> 'j hook \<Rightarrow> 'j hook" where
  "advance d s =
     (let c = clock s + d;
          due = filter (\<lambda>(h, t). t \<le> c) (timers s);
          rest = filter (\<lambda>(h, t). \<not> t \<le> c) (timers s)
      in (connect ^^ length due) (s\<lparr>clock := c, timers := rest\<rparr>))"

text \<open>
  The events the hook can see. A socket event is delivered only in a readyState in which
  the browser can deliver it: open once while connecting, messages while open, error
  before the socket is closed, close once.
\<close>

datatype event =
    Mount
  | Unmount
  | Disconnect
  | Reconnect
  | SetToken "string option"
  | SockOpen nat
  | SockMessage nat string
  | SockError nat
  | SockClose nat
  | Advance nat

definition ready :: "'j hook \<Rightarrow> nat \<Rightarrow> readyState option" where
  "ready s k = (if k < length (sockets s) then Some (sockets s ! k) else None)"

fun step :: "(string \<Rightarrow> 'j option) \<Rightarrow> event \<Rightarrow> 'j hook \<Rightarrow> 'j hook" where
  "step parse Mount s = mount_effect s"
| "step parse Unmount s = cleanup s"
| "step parse Disconnect s = disconnect s"
| "step parse Reconnect s = connect s"
| "step parse (SetToken t) s = s\<lparr>token := t\<rparr>"
| "step parse (SockOpen k) s =
     (if ready s k = Some CONNECTING
      then onopen (s\<lparr>sockets := (sockets s)[k := OPEN]\<rparr>) else s)"
| "step parse (SockMessage k payload) s =
     (if ready s k = Some OPEN then onmessage parse payload s else s)"
| "step parse (SockError k) s =
     (if ready s k \<in> {Some CONNECTING, Some OPEN, Some CLOSING} then onerror k s else s)"
| "step parse (SockClose k) s =
     (if ready s k \<in> {Some CONNECTING, Some OPEN, Some CLOSING}
      then onclose (s\<lparr>sockets := (sockets s)[k := CLOSED]\<rparr>) else s)"
| "step parse (Advance d) s = advance d s"

fun run :: "(string \<Rightarrow> 'j option) \<Rightarrow> event list \<Rightarrow> 'j hook \<Rightarrow> 'j hook" where
  "run parse [] s = s"
| "run parse (e # es) s = run parse es (step parse e s)"

text \<open>The delays the hook has announced on the console, oldest first.\<close>

fun delays_logged :: "console_entry list \<Rightarrow> nat list" where
  "delays_logged [] = []"
| "delays_logged (Log_reconnecting d # es) = d # delays_logged es"
| "delays_logged (e # es) = delays_logged es"

fun is_open :: "event \<Rightarrow> bool" where
  "is_open (SockOpen k) = True"
| "is_open e = False"

section \<open>Display smoother: the ServerCard component\<close>

text \<open>
  \<open>rawOnline = metrics?.is_online ?? server.is_online ?? false\<close>. A field that is
  \<open>undefined\<close> or \<open>null\<close> is \<open>None\<close>; \<open>metrics\<close> itself may be absent.
\<close>

record metrics_row =
  met_is_online :: "bool option"

record server_row =
  srv_is_online :: "bool option"

definition rawOnline :: "metrics_row option \<Rightarrow> server_row \<Rightarrow> bool" where
  "rawOnline metrics server =
     (case (case metrics of None \<Rightarrow> None | Some m \<Rightarrow> met_is_online m) of
        Some b \<Rightarrow> b
      | None \<Rightarrow> (case srv_is_online server of Some b \<Rightarrow> b | None \<Rightarrow> False))"

text \<open>
  The card's state \<open>isOnline\<close> and ref \<open>offlineTimerRef\<close>, together with what React and
  the browser keep for it: \<open>lastRawOnline\<close> is the value of the dependency \<open>rawOnline\<close> at
  the latest render (an effect with dependency array \<open>[rawOnline]\<close> runs after the first
  render and after each render in which that value has changed); \<open>offline_timers\<close> is
  the table of the card's pending timeouts as pairs (handle, deadline in ms),
  \<open>next_handle\<close> the next fresh handle, \<open>now\<close> the current time in ms; \<open>unmounted\<close>
  says that React has removed the card. An effect is taken to run at the time of the
  render that triggers it.
\<close>

record card =
  isOnline :: bool
  offlineTimerRef :: "nat option"
  lastRawOnline :: bool
  offline_timers :: "(nat \<times> nat) list"
  next_handle :: nat
  now :: nat
  unmounted :: bool

definition OFFLINE_GRACE_MS :: nat where
  "OFFLINE_GRACE_MS = 12000"

text \<open>The callback given to \<open>setTimeout\<close>.\<close>

definition offline_timeout :: "card \<Rightarrow> card" where
  "offline_timeout s = s\<lparr>isOnline := False, offlineTimerRef := None\<rparr>"

text \<open>The body of the debounce effect, run with the \<open>rawOnline\<close> of the render.\<close>

definition debounce_effect :: "bool \<Rightarrow> card \<Rightarrow> card" where
  "debounce_effect raw s =
     (if raw then
        (case offlineTimerRef s of
           Some h \<Rightarrow> s\<lparr> offline_timers := clearTimeout (Some h) (offline_timers s),
                         offlineTimerRef := None,
                         isOnline := True \<rparr>
         | None \<Rightarrow> s\<lparr>isOnline := True\<rparr>)
      else
        (case offlineTimerRef s of
           None \<Rightarrow> s\<lparr> offline_timers :=
                           offline_timers s @ [(next_handle s, now s + OFFLINE_GRACE_MS)],
                         next_handle := next_handle s + 1,
                         offlineTimerRef := Some (next_handle s) \<rparr>
         | Some h \<Rightarrow> s))"

text \<open>The first render (\<open>useState(rawOnline)\<close>, \<open>useRef(null)\<close>), then the effect.\<close>

definition card_init :: "bool \<Rightarrow> card" where
  "card_init raw =
     \<lparr> isOnline = raw, offlineTimerRef = None, lastRawOnline = raw, offline_timers = [],
       next_handle = 1, now = 0, unmounted = False \<rparr>"

definition card_mount :: "bool \<Rightarrow> card" where
  "card_mount raw = debounce_effect raw (card_init raw)"

text \<open>The cleanup of the second effect; it leaves the ref as it is.\<close>

definition card_unmount :: "card \<Rightarrow> card" where
  "card_unmount s =
     s\<lparr> offline_timers :=
           (case offlineTimerRef s of
              Some h \<Rightarrow> clearTimeout (Some h) (offline_timers s)
            | None \<Rightarrow> offline_timers s),
         unmounted := True \<rparr>"

definition card_elapse :: "nat \<Rightarrow> card \<Rightarrow> card" where
  "card_elapse d s =
     (let c = now s + d;
          due = filter (\<lambda>(h, t). t \<le> c) (offline_timers s);
          rest = filter (\<lambda>(h, t). \<not> t \<le> c) (offline_timers s)
      in (offline_timeout ^^ length due) (s\<lparr>now := c, offline_timers := rest\<rparr>))"

text \<open>
  What happens to a mounted card: the parent renders it again with a raw flag, time
  passes, or it is removed. A removed card is not rendered again.
\<close>

datatype card_event = Render bool | Elapse nat | Remove

fun card_step :: "card_event \<Rightarrow> card \<Rightarrow> card" where
  "card_step (Render raw) s =
     (if unmounted s \<or> raw = lastRawOnline s then s
      else debounce_effect raw (s\<lparr>lastRawOnline := raw\<rparr>))"
| "card_step (Elapse d) s = card_elapse d s"
| "card_step Remove s = (if unmounted s then s else card_unmount s)"

fun card_run :: "card_event list \<Rightarrow> card \<Rightarrow> card" where
  "card_run [] s = s"
| "card_run (e # es) s = card_run es (card_step e s)"

fun elapsed :: "card_event list \<Rightarrow> nat" where
  "elapsed [] = 0"
| "elapsed (Elapse d # es) = d + elapsed es"
| "elapsed (e # es) = elapsed es"

text \<open>What the card shows: the class of the status dot and the body.\<close>

datatype card_body = Gauges | OFFLINE_text

definition status_dot :: "card \<Rightarrow> string" where
  "status_dot s = (if isOnline s then ''online'' else ''offline'')"

definition body :: "card \<Rightarrow> card_body" where
  "body s = (if isOnline s then Gauges else OFFLINE_text)"

section \<open>Detail page: the rolling metric history\<close>

definition MAX_HISTORY :: nat where
  "MAX_HISTORY = 60"

text \<open>\<open>xs.slice(-n)\<close> for a positive \<open>n\<close>: the start index is \<open>max (length - n) 0\<close>.\<close>

definition slice_last :: "nat \<Rightarrow> 'a list \<Rightarrow> 'a list" where
  "slice_last n xs = drop (length xs - n) xs"

text \<open>The updater passed to \<open>setHistory\<close>.\<close>

definition push_history :: "'p list \<Rightarrow> 'p \<Rightarrow> 'p list" where
  "push_history prev point = (let next = prev @ [point] in slice_last MAX_HISTORY next)"

text \<open>
  The effect that feeds the history. \<open>wsData\<close> is \<open>None\<close> before the first frame and its
  \<open>servers\<close> field may be absent; an entry is a pair of its \<open>server_id\<close> and the rest;
  \<open>vid\<close> is \<open>parseInt(id)\<close>, \<open>None\<close> for NaN, which equals no \<open>server_id\<close>. The point is
  built from the entry, the wall clock and the previous network counters with
  floating-point arithmetic; that construction is the parameter \<open>mk_point\<close>.
\<close>

definition history_effect ::
  "('m \<Rightarrow> 'p) \<Rightarrow> (int \<times> 'm) list option option \<Rightarrow> int option \<Rightarrow> 'p list \<Rightarrow> 'p list" where
  "history_effect mk_point wsData vid history =
     (case wsData of
        None \<Rightarrow> history
      | Some frame \<Rightarrow>
          (case frame of
             None \<Rightarrow> history
           | Some servers \<Rightarrow>
               (case find (\<lambda>(sid, m). Some sid = vid) servers of
                  None \<Rightarrow> history
                | Some (sid, m) \<Rightarrow> push_history history (mk_point m))))"








section \<open>Server-side liveness\<close>

text \<open>
  Modelled from the spec: the panel's Poller and its LivenessState (spec sections 3 and
  4.2) are backend code that is not among the sources; only the card's comment on the
  backend's three-failure threshold is. On success the spec sets
  \<open>consecutive_failures = 0\<close>, \<open>is_online = true\<close>, \<open>last_seen = now\<close> and replaces the
  snapshot; on failure it increments \<open>consecutive_failures\<close> and flips \<open>is_online\<close> to
  false only when the count has reached \<open>OFFLINE_THRESHOLD\<close>, keeping the prior value
  and the prior snapshot below it. The state is created on registration; the spec does
  not say with which \<open>is_online\<close>, so that is a parameter.
\<close>

record 'm liveness =
  consecutive_failures :: nat
  is_online :: bool
  last_seen :: "nat option"
  snapshot :: "'m option"

definition OFFLINE_THRESHOLD :: nat where
  "OFFLINE_THRESHOLD = 3"

datatype 'm poll_result = Poll_success nat 'm | Poll_failure

text \<open>
  Modelled from the spec: the state the Registry creates on registration (the source of
  the backend is missing). No poll has failed yet and nothing has been seen.
\<close>

definition liveness_registered :: "bool \<Rightarrow> 'm liveness" where
  "liveness_registered b =
     \<lparr> consecutive_failures = 0, is_online = b, last_seen = None, snapshot = None \<rparr>"

text \<open>
  Modelled from the spec: the Poller's update of the liveness state after one poll (the
  source of the backend Poller is missing), in the words of spec section 4.2. A
  successful poll carries the time and the parsed metrics.
\<close>

fun poll_update :: "'m poll_result \<Rightarrow> 'm liveness \<Rightarrow> 'm liveness" where
  "poll_update (Poll_success t m) s =
     s\<lparr> consecutive_failures := 0, is_online := True, last_seen := Some t,
        snapshot := Some m \<rparr>"
| "poll_update Poll_failure s =
     (let n = consecutive_failures s + 1
      in s\<lparr> consecutive_failures := n,
              is_online := (if n \<ge> OFFLINE_THRESHOLD then False else is_online s) \<rparr>)"

fun polls :: "'m poll_result list \<Rightarrow> 'm liveness \<Rightarrow> 'm liveness" where
  "polls [] s = s"
| "polls (r # rs) s = polls rs (poll_update r s)"

fun is_failure :: "'m poll_result \<Rightarrow> bool" where
  "is_failure Poll_failure = True"
| "is_failure (Poll_success t m) = False"

section \<open>Invariants and example runs\<close>

text \<open>
  The predicates below are used to state and prove the properties; they are not part of
  the program. The \<open>demo\<close> definitions are concrete runs on which the theorems are
  instantiated.
\<close>

text \<open>What the status may be, and what it says about the retry counter.\<close>

definition status_inv :: "'j hook \<Rightarrow> bool" where
  "status_inv s \<longleftrightarrow>
     status s \<in> {''connecting'', ''connected'', ''disconnected''} \<and>
     (status s = ''connected'' \<longrightarrow> retryCountRef s = 0)"

text \<open>A disconnected hook with no socket left to close and nothing scheduled.\<close>

definition idle :: "'j hook \<Rightarrow> bool" where
  "idle s \<longleftrightarrow> timers s = [] \<and> list_all (\<lambda>r. r = CLOSED) (sockets s) \<and>
               status s = ''disconnected''"

text \<open>A toy \<open>JSON.parse\<close> for the example runs: it accepts the empty object only.\<close>

definition parse0 :: "string \<Rightarrow> unit option" where
  "parse0 p = (if p = ''{}'' then Some () else None)"

definition demo_mounted :: "unit hook" where
  "demo_mounted = mount_effect (hook_init (Some ''t''))"

definition demo_failures :: "event list" where
  "demo_failures = [SockClose 0, Advance 1000, SockClose 1, Advance 2000, SockClose 2]"

definition demo_again :: "event list" where
  "demo_again = [Advance 4000, SockOpen 3, SockClose 3]"

definition demo_connected :: "unit hook" where
  "demo_connected = run parse0 [Mount, SockOpen 0, SockMessage 0 ''{}''] (hook_init (Some ''t''))"

definition demo_reopen :: "event list" where
  "demo_reopen = [Mount, SockClose 0, SockClose 0, Advance 1000, SockOpen 1]"

definition demo_quiet :: "event list" where
  "demo_quiet = [Advance 1000, SockClose 0, Advance 60000, SetToken (Some ''t''), Advance 5]"

definition demo_logged_out :: "unit hook" where
  "demo_logged_out = run parse0 [SockClose 0, SetToken None] demo_mounted"

text \<open>Events that come from the browser, not from React or from a caller of the hook.\<close>

fun from_browser :: "event \<Rightarrow> bool" where
  "from_browser (SetToken t) = True"
| "from_browser (SockOpen k) = True"
| "from_browser (SockMessage k p) = True"
| "from_browser (SockError k) = True"
| "from_browser (SockClose k) = True"
| "from_browser (Advance d) = True"
| "from_browser e = False"

text \<open>
  A hook that is mounted and has at most one thing in flight: one socket that is not yet
  closed, which \<open>wsRef\<close> holds while it is connecting or open, or one pending timer,
  which \<open>reconnectTimeoutRef\<close> holds.
\<close>

definition life :: "'j hook \<Rightarrow> bool" where
  "life s \<longleftrightarrow> isMountedRef s \<and>
     (timers s = [] \<or>
      (\<exists>h t. timers s = [(h, t)] \<and> reconnectTimeoutRef s = Some h \<and>
             (\<forall>i < length (sockets s). sockets s ! i = CLOSED))) \<and>
     (\<forall>i < length (sockets s). sockets s ! i \<noteq> CLOSED \<longrightarrow>
        (\<forall>j < length (sockets s). sockets s ! j \<noteq> CLOSED \<longrightarrow> j = i)) \<and>
     (\<forall>i < length (sockets s). sockets s ! i = CONNECTING \<or> sockets s ! i = OPEN \<longrightarrow>
        wsRef s = Some i)"

text \<open>
  A mounted card has a pending timer exactly when its ref holds the timer's handle; the
  raw flag is then false and the deadline lies ahead. With no timer the card shows the
  raw flag. A removed card has no pending timer.
\<close>

definition card_inv :: "card \<Rightarrow> bool" where
  "card_inv s \<longleftrightarrow>
     (if unmounted s then offline_timers s = []
      else (case offlineTimerRef s of
              None \<Rightarrow> offline_timers s = [] \<and> (isOnline s \<longleftrightarrow> lastRawOnline s)
            | Some h \<Rightarrow> \<not> lastRawOnline s \<and>
                (\<exists>t. offline_timers s = [(h, t)] \<and> now s < t)))"

text \<open>A card that is shown online and none of whose timers is due before \<open>T\<close>.\<close>

definition safe :: "nat \<Rightarrow> card \<Rightarrow> bool" where
  "safe T s \<longleftrightarrow> \<not> unmounted s \<and> isOnline s \<and> T \<le> now s + OFFLINE_GRACE_MS \<and>
                (\<forall>(h, t) \<in> set (offline_timers s). T \<le> t)"

text \<open>Events in which no raw true arrives and the card stays mounted.\<close>

fun stays_false :: "card_event \<Rightarrow> bool" where
  "stays_false (Render raw) = (\<not> raw)"
| "stays_false (Elapse d) = True"
| "stays_false Remove = False"


definition trailing_failures :: "'m poll_result list \<Rightarrow> nat" where
  "trailing_failures rs = length (takeWhile is_failure (rev rs))"

text \<open>Example runs of the card, the poller and the hook.\<close>

definition demo_flicker :: "card_event list" where
  "demo_flicker = [Elapse 4000, Render False, Elapse 7999]"

definition demo_outage :: "card_event list" where
  "demo_outage = [Elapse 5000, Render False, Elapse 6999]"

definition demo_still_down :: "card_event list" where
  "demo_still_down = [Elapse 5000, Render False, Elapse 20000, Remove]"

definition demo_three_failures :: "unit poll_result list" where
  "demo_three_failures = [Poll_success 1 (), Poll_failure, Poll_failure]"

definition demo_closed_once :: "unit hook" where
  "demo_closed_once = run parse0 [SockClose 0] (mount_effect (hook_init (Some ''t'')))"

definition demo_after :: "event list" where
  "demo_after = [Advance 60000, Reconnect, SockOpen 0, Unmount]"

definition demo_grace :: card where
  "demo_grace = card_run [Render False, Elapse 3000] (card_mount True)"

definition demo_remount :: "event list" where
  "demo_remount = [Mount, Unmount, Mount, SockClose 0, SockClose 1, Unmount]"

definition demo_reconnect_call :: "event list" where
  "demo_reconnect_call = [Mount, SockClose 0, Reconnect, SockClose 1, Unmount]"






section \<open>Reconnector: backoff, malformed frames, status\<close>

subsection \<open>What each handler leaves alone\<close>

lemma delays_logged_append:
  "delays_logged (xs @ ys) = delays_logged xs @ delays_logged ys"
  by (induction xs rule: delays_logged.induct) simp_all

lemma connect_keeps:
  "retryCountRef (connect s) = retryCountRef s"
  "console (connect s) = console s"
  "timers (connect s) = timers s"
  "nextTimer (connect s) = nextTimer s"
  "isMountedRef (connect s) = isMountedRef s"
  "reconnectTimeoutRef (connect s) = reconnectTimeoutRef s"
  "clock (connect s) = clock s"
  "token (connect s) = token s"
  "data (connect s) = data s"
  by (simp_all add: connect_def)

lemma connect_pow_keeps:
  "retryCountRef ((connect ^^ n) s) = retryCountRef s"
  "console ((connect ^^ n) s) = console s"
  "timers ((connect ^^ n) s) = timers s"
  "nextTimer ((connect ^^ n) s) = nextTimer s"
  "isMountedRef ((connect ^^ n) s) = isMountedRef s"
  "reconnectTimeoutRef ((connect ^^ n) s) = reconnectTimeoutRef s"
  "clock ((connect ^^ n) s) = clock s"
  "token ((connect ^^ n) s) = token s"
  "data ((connect ^^ n) s) = data s"
  by (induction n) (simp_all add: connect_keeps)

lemma advance_keeps:
  "retryCountRef (advance d s) = retryCountRef s"
  "console (advance d s) = console s"
  "nextTimer (advance d s) = nextTimer s"
  "isMountedRef (advance d s) = isMountedRef s"
  "reconnectTimeoutRef (advance d s) = reconnectTimeoutRef s"
  "token (advance d s) = token s"
  "data (advance d s) = data s"
  by (simp_all add: advance_def Let_def connect_pow_keeps)

lemma close_current_keeps:
  "retryCountRef (close_current s) = retryCountRef s"
  "console (close_current s) = console s"
  "nextTimer (close_current s) = nextTimer s"
  "timers (close_current s) = timers s"
  "isMountedRef (close_current s) = isMountedRef s"
  "status (close_current s) = status s"
  "data (close_current s) = data s"
  "length (sockets (close_current s)) = length (sockets s)"
  by (simp_all add: close_current_def ws_close_def split: option.splits)

lemma cleanup_keeps:
  "retryCountRef (cleanup s) = retryCountRef s"
  "console (cleanup s) = console s"
  "nextTimer (cleanup s) = nextTimer s"
  "status (cleanup s) = status s"
  "data (cleanup s) = data s"
  by (simp_all add: cleanup_def close_current_keeps)

subsection \<open>The backoff sequence\<close>

lemma step_delays:
  assumes "\<not> is_open e"
  shows "retryCountRef s \<le> retryCountRef (step parse e s) \<and>
         delays_logged (console (step parse e s)) =
           delays_logged (console s) @
             map reconnect_delay [retryCountRef s ..< retryCountRef (step parse e s)]"
  using assms
  by (cases e)
     (simp_all add: mount_effect_def connect_keeps cleanup_keeps disconnect_def advance_keeps
        onmessage_def onerror_def onclose_def Let_def delays_logged_append
        split: option.splits)

lemma run_delays:
  assumes "\<forall>e \<in> set es. \<not> is_open e"
  shows "retryCountRef s \<le> retryCountRef (run parse es s) \<and>
         delays_logged (console (run parse es s)) =
           delays_logged (console s) @
             map reconnect_delay [retryCountRef s ..< retryCountRef (run parse es s)]"
  using assms
proof (induction es arbitrary: s)
  case Nil
  then show ?case by simp
next
  case (Cons e es)
  let ?s1 = "step parse e s"
  from Cons.prems have e: "\<not> is_open e" and es: "\<forall>e \<in> set es. \<not> is_open e" by simp_all
  note a = step_delays [OF e, of s parse]
  note b = Cons.IH [OF es, of ?s1]
  from a b have le: "retryCountRef s \<le> retryCountRef (run parse es ?s1)" by simp
  have split: "[retryCountRef s ..< retryCountRef (run parse es ?s1)] =
      [retryCountRef s ..< retryCountRef ?s1] @ [retryCountRef ?s1 ..< retryCountRef (run parse es ?s1)]"
    using a b by (metis le_Suc_ex upt_add_eq_append)
  show ?case using a b le split by simp
qed

lemma reconnect_delay_first_seven:
  "map reconnect_delay [0..<7] = [1000, 2000, 4000, 8000, 16000, 30000, 30000]"
  by (simp add: reconnect_delay_def upt_rec)

lemma reconnect_delay_capped: "5 \<le> n \<Longrightarrow> reconnect_delay n = 30000"
proof -
  assume "5 \<le> n"
  then have "(2::nat) ^ 5 \<le> 2 ^ n" by (intro power_increasing) simp_all
  then show ?thesis by (simp add: reconnect_delay_def)
qed

text \<open>
  Claim C1. When a socket of a mounted hook opens, the retry counter becomes 0. From
  there, as long as no socket opens, the delays the hook announces are
  \<open>min (1000 * 2^n) 30000\<close> for \<open>n = 0, 1, 2, ...\<close> in this order, one for each close it
  handles, and the retry counter is their number. Each close delivered to a mounted hook
  schedules \<open>connect\<close> that many ms after the current time, keeps the timer's handle in
  \<open>reconnectTimeoutRef\<close> and increments the counter. The first seven delays are 1000,
  2000, 4000, 8000, 16000, 30000, 30000, and every delay from the sixth on is 30000.
\<close>

theorem reconnect_delay_sequence:
  assumes "isMountedRef s" and "ready s k = Some CONNECTING"
    and "\<forall>e \<in> set es. \<not> is_open e"
  shows "retryCountRef (step parse (SockOpen k) s) = 0 \<and>
         delays_logged (console (run parse (SockOpen k # es) s)) =
           delays_logged (console s) @
             map (\<lambda>n. min (1000 * 2 ^ n) 30000)
               [0 ..< retryCountRef (run parse (SockOpen k # es) s)] \<and>
         (\<forall>s' j. isMountedRef s' \<and> ready s' j \<in> {Some CONNECTING, Some OPEN, Some CLOSING} \<longrightarrow>
            timers (step parse (SockClose j) s') =
              timers s' @ [(nextTimer s', clock s' + min (1000 * 2 ^ retryCountRef s') 30000)] \<and>
            reconnectTimeoutRef (step parse (SockClose j) s') = Some (nextTimer s') \<and>
            retryCountRef (step parse (SockClose j) s') = retryCountRef s' + 1) \<and>
         map reconnect_delay [0 ..< 7] = [1000, 2000, 4000, 8000, 16000, 30000, 30000] \<and>
         (\<forall>n \<ge> 5. reconnect_delay n = 30000)"
proof -
  let ?o = "step parse (SockOpen k) s"
  have r0: "retryCountRef ?o = 0" and c0: "console ?o = console s"
    using assms(1,2) by (simp_all add: onopen_def)
  have fn: "reconnect_delay = (\<lambda>n. min (1000 * 2 ^ n) 30000)"
    by (rule ext) (simp add: reconnect_delay_def)
  from run_delays [OF assms(3), of ?o parse]
  have a: "delays_logged (console (run parse (SockOpen k # es) s)) =
           delays_logged (console s) @
             map (\<lambda>n. min (1000 * 2 ^ n) 30000)
               [0 ..< retryCountRef (run parse (SockOpen k # es) s)]"
    unfolding run.simps by (simp only: r0 c0 fn)
  have b: "\<forall>s' j. isMountedRef s' \<and> ready s' j \<in> {Some CONNECTING, Some OPEN, Some CLOSING} \<longrightarrow>
            timers (step parse (SockClose j) s') =
              timers s' @ [(nextTimer s', clock s' + min (1000 * 2 ^ retryCountRef s') 30000)] \<and>
            reconnectTimeoutRef (step parse (SockClose j) s') = Some (nextTimer s') \<and>
            retryCountRef (step parse (SockClose j) s') = retryCountRef s' + 1"
    by (simp add: onclose_def Let_def reconnect_delay_def)
  from r0 a b reconnect_delay_first_seven reconnect_delay_capped show ?thesis by blast
qed

theorem reconnect_delay_sequence_witness:
  "isMountedRef demo_mounted \<and> ready demo_mounted 0 = Some CONNECTING \<and>
   list_all (\<lambda>e. \<not> is_open e) demo_failures \<and>
   delays_logged (console (run parse0 (SockOpen 0 # demo_failures) demo_mounted)) =
     [1000, 2000, 4000] \<and>
   retryCountRef (run parse0 (SockOpen 0 # demo_failures) demo_mounted) = 3 \<and>
   delays_logged (console (run parse0 (SockOpen 0 # demo_failures @ demo_again) demo_mounted)) =
     [1000, 2000, 4000, 1000]"
proof -
  have h1: "isMountedRef demo_mounted" and h2: "ready demo_mounted 0 = Some CONNECTING"
    and c: "console demo_mounted = []"
    by (simp_all add: demo_mounted_def mount_effect_def hook_init_def connect_def
        token_missing_def ready_def)
  have h3: "\<forall>e \<in> set demo_failures. \<not> is_open e" by (simp add: demo_failures_def)
  have r: "retryCountRef (run parse0 (SockOpen 0 # demo_failures) demo_mounted) = 3"
    by (simp add: demo_failures_def demo_mounted_def mount_effect_def hook_init_def onopen_def
        onclose_def advance_def connect_def token_missing_def ready_def reconnect_delay_def
        Let_def)
  have again: "delays_logged (console
      (run parse0 (SockOpen 0 # demo_failures @ demo_again) demo_mounted)) =
     [1000, 2000, 4000, 1000]"
    by (simp add: demo_failures_def demo_again_def demo_mounted_def mount_effect_def
        hook_init_def onopen_def onclose_def advance_def connect_def token_missing_def
        ready_def reconnect_delay_def Let_def)
  from reconnect_delay_sequence [OF h1 h2 h3, of parse0]
  have "delays_logged (console (run parse0 (SockOpen 0 # demo_failures) demo_mounted)) =
      map (\<lambda>n. min (1000 * 2 ^ n) 30000) [0 ..< 3]"
    by (simp only: r c delays_logged.simps append_Nil)
  then have "delays_logged (console (run parse0 (SockOpen 0 # demo_failures) demo_mounted)) =
      [1000, 2000, 4000]"
    by (simp add: upt_rec)
  with h1 h2 h3 r again show ?thesis by (simp add: list_all_iff)
qed

subsection \<open>Malformed frames\<close>

text \<open>
  Claim C5. A message whose payload \<open>JSON.parse\<close> rejects changes nothing but the
  console: the stored data, the status, the readyState of every socket, the refs and the
  timers are as before, and a mounted hook with that socket open logs one warning.
\<close>

theorem malformed_frame_discarded:
  assumes "parse payload = None"
  shows "step parse (SockMessage k payload) s =
           (if ready s k = Some OPEN \<and> isMountedRef s
            then s\<lparr>console := console s @ [Warn_parse_failed]\<rparr> else s) \<and>
         data (step parse (SockMessage k payload) s) = data s \<and>
         status (step parse (SockMessage k payload) s) = status s \<and>
         sockets (step parse (SockMessage k payload) s) = sockets s \<and>
         wsRef (step parse (SockMessage k payload) s) = wsRef s \<and>
         timers (step parse (SockMessage k payload) s) = timers s \<and>
         retryCountRef (step parse (SockMessage k payload) s) = retryCountRef s"
  using assms by (simp add: onmessage_def)

lemma demo_connected_eq:
  "demo_connected =
     \<lparr> data = Some (), status = ''connected'', wsRef = Some 0, reconnectTimeoutRef = None,
       retryCountRef = 0, isMountedRef = True, token = Some ''t'', sockets = [OPEN],
       timers = [], nextTimer = 1, clock = 0, console = [] \<rparr>"
  by (simp add: demo_connected_def hook_init_def mount_effect_def connect_def token_missing_def
      ready_def onopen_def onmessage_def parse0_def)

theorem malformed_frame_discarded_witness:
  "parse0 ''{bad'' = None \<and>
   step parse0 (SockMessage 0 ''{bad'') demo_connected =
     demo_connected\<lparr>console := [Warn_parse_failed]\<rparr> \<and>
   data (step parse0 (SockMessage 0 ''{bad'') demo_connected) = Some () \<and>
   status (step parse0 (SockMessage 0 ''{bad'') demo_connected) = ''connected'' \<and>
   sockets (step parse0 (SockMessage 0 ''{bad'') demo_connected) = [OPEN]"
proof -
  have h: "parse0 ''{bad'' = None" by (simp add: parse0_def)
  from malformed_frame_discarded [of parse0 "''{bad''" 0 demo_connected, OF h] h show ?thesis
    by (simp add: demo_connected_eq ready_def)
qed

subsection \<open>Status and retry counter\<close>

lemma connect_pow_status_inv: "status_inv s \<Longrightarrow> status_inv ((connect ^^ n) s)"
  by (induction n) (simp_all add: status_inv_def connect_def)

lemma step_status_inv: "status_inv s \<Longrightarrow> status_inv (step parse e s)"
proof (cases e)
  case (Advance d)
  assume "status_inv s"
  then have "status_inv (s\<lparr>clock := clock s + d,
      timers := filter (\<lambda>(h, t). \<not> t \<le> clock s + d) (timers s)\<rparr>)"
    by (simp add: status_inv_def)
  then show ?thesis using Advance
    by (simp add: advance_def Let_def connect_pow_status_inv)
qed (simp_all add: status_inv_def mount_effect_def connect_def cleanup_keeps disconnect_def
      onopen_def onmessage_def onerror_def onclose_def Let_def split: option.splits)

lemma run_status_inv: "status_inv s \<Longrightarrow> status_inv (run parse es s)"
  by (induction es arbitrary: s) (simp_all add: step_status_inv)

lemma step_retry_grows:
  "retryCountRef s < retryCountRef (step parse e s) \<Longrightarrow>
     (\<exists>k. e = SockClose k) \<and> status (step parse e s) = ''disconnected'' \<and>
     retryCountRef (step parse e s) = retryCountRef s + 1"
  by (cases e)
     (simp_all add: mount_effect_def connect_keeps cleanup_keeps disconnect_def advance_keeps
        onopen_def onmessage_def onerror_def onclose_def Let_def
        split: option.splits if_splits)

text \<open>
  Claim C8. In every state the hook reaches from its first render, by any events in any
  order, the status is one of connecting, connected, disconnected, and a connected hook
  has retry counter 0. The counter grows only in the close handler, by one, and the
  status is then disconnected; an open delivered to a mounted hook sets the status to
  connected and the counter to 0.
\<close>

theorem connected_has_no_retries:
  "status_inv (run parse es (hook_init tok)) \<and>
   (\<forall>e s. retryCountRef s < retryCountRef (step parse e s) \<longrightarrow>
      (\<exists>k. e = SockClose k) \<and> status (step parse e s) = ''disconnected'' \<and>
      retryCountRef (step parse e s) = retryCountRef s + 1) \<and>
   (\<forall>k s. isMountedRef s \<and> ready s k = Some CONNECTING \<longrightarrow>
      status (step parse (SockOpen k) s) = ''connected'' \<and>
      retryCountRef (step parse (SockOpen k) s) = 0)"
proof -
  have "status_inv (hook_init tok :: 'a hook)" by (simp add: status_inv_def hook_init_def)
  then have "status_inv (run parse es (hook_init tok))" by (rule run_status_inv)
  moreover have "\<forall>k s. isMountedRef (s :: 'a hook) \<and> ready s k = Some CONNECTING \<longrightarrow>
      status (step parse (SockOpen k) s) = ''connected'' \<and>
      retryCountRef (step parse (SockOpen k) s) = 0"
    by (simp add: onopen_def)
  ultimately show ?thesis using step_retry_grows by blast
qed

theorem connected_has_no_retries_witness:
  "status (run parse0 demo_reopen (hook_init (Some ''t''))) = ''connected'' \<and>
   retryCountRef (run parse0 demo_reopen (hook_init (Some ''t''))) = 0 \<and>
   retryCountRef (run parse0 [Mount, SockClose 0] (hook_init (Some ''t''))) = 1 \<and>
   status (run parse0 [Mount, SockClose 0] (hook_init (Some ''t''))) = ''disconnected''"
proof -
  have st: "status (run parse0 demo_reopen (hook_init (Some ''t'') :: unit hook)) = ''connected''"
    by (simp add: demo_reopen_def hook_init_def mount_effect_def connect_def token_missing_def
        ready_def onopen_def onclose_def advance_def reconnect_delay_def Let_def)
  have cl: "retryCountRef (run parse0 [Mount, SockClose 0] (hook_init (Some ''t'') :: unit hook)) = 1"
       "status (run parse0 [Mount, SockClose 0] (hook_init (Some ''t'') :: unit hook)) = ''disconnected''"
    by (simp_all add: hook_init_def mount_effect_def connect_def token_missing_def
        ready_def onclose_def reconnect_delay_def Let_def)
  from connected_has_no_retries [of parse0 demo_reopen "Some ''t''"]
  have "status_inv (run parse0 demo_reopen (hook_init (Some ''t'') :: unit hook))" by blast
  with st have "retryCountRef (run parse0 demo_reopen (hook_init (Some ''t'') :: unit hook)) = 0"
    by (simp add: status_inv_def)
  with st cl show ?thesis by blast
qed

subsection \<open>No token\<close>

lemma all_closed_ready:
  "list_all (\<lambda>r. r = CLOSED) (sockets s) \<Longrightarrow> ready s k = None \<or> ready s k = Some CLOSED"
  by (simp add: ready_def list_all_length)

lemma all_closed_ws_close:
  "list_all (\<lambda>r. r = CLOSED) socks \<Longrightarrow> ws_close k socks = socks"
  by (auto simp: ws_close_def list_all_length)

lemma step_idle:
  assumes "idle s" and "e \<noteq> Mount" and "e \<noteq> Reconnect"
  shows "idle (step parse e s) \<and> sockets (step parse e s) = sockets s \<and>
         nextTimer (step parse e s) = nextTimer s"
proof -
  from assms(1) have c: "list_all (\<lambda>r. r = CLOSED) (sockets s)" by (simp add: idle_def)
  note r = all_closed_ready [OF c]
  note w = all_closed_ws_close [OF c]
  show ?thesis
  proof (cases e)
    case (SockOpen k)
    with r [of k] assms(1) show ?thesis by auto
  next
    case (SockMessage k p)
    with r [of k] assms(1) show ?thesis by auto
  next
    case (SockError k)
    with r [of k] assms(1) show ?thesis by auto
  next
    case (SockClose k)
    with r [of k] assms(1) show ?thesis by auto
  next
    case Unmount
    with assms(1) w show ?thesis
      by (simp add: idle_def cleanup_def close_current_def clearTimeout_def
          split: option.splits)
  next
    case Disconnect
    with assms(1) w show ?thesis
      by (simp add: idle_def disconnect_def cleanup_def close_current_def clearTimeout_def
          split: option.splits)
  next
    case (Advance d)
    with assms(1) show ?thesis by (simp add: idle_def advance_def)
  next
    case (SetToken t)
    with assms(1) show ?thesis by (simp add: idle_def)
  qed (use assms in simp_all)
qed

lemma run_idle:
  assumes "idle s" and "\<forall>e \<in> set es. e \<noteq> Mount \<and> e \<noteq> Reconnect"
  shows "idle (run parse es s) \<and> sockets (run parse es s) = sockets s \<and>
         nextTimer (run parse es s) = nextTimer s"
  using assms
proof (induction es arbitrary: s)
  case Nil
  then show ?case by simp
next
  case (Cons e es)
  from Cons.prems have e: "e \<noteq> Mount" "e \<noteq> Reconnect"
    and es: "\<forall>e \<in> set es. e \<noteq> Mount \<and> e \<noteq> Reconnect" by simp_all
  note a = step_idle [OF Cons.prems(1) e, of parse]
  then have "idle (step parse e s)" by simp
  from Cons.IH [OF this es] a show ?case by simp
qed

text \<open>
  Claim C9. With no token stored (absent or empty), \<open>connect\<close> on a mounted hook only
  sets the status to disconnected; on a hook that is not mounted it returns before it
  looks at the token. In both cases it constructs no socket and schedules no timer. When
  it runs on a mounted hook with no timer pending and every socket closed (at the first
  mount, or from the timer after the last socket has closed), the hook stays
  disconnected with no new socket and no timer, whatever happens afterwards, until
  \<open>connect\<close> is called again from outside (a new mount or the exported \<open>reconnect\<close>).
\<close>

theorem connect_without_token:
  "(token_missing (token s) \<longrightarrow>
      connect s = (if isMountedRef s then s\<lparr>status := ''disconnected''\<rparr> else s) \<and>
      sockets (connect s) = sockets s \<and> wsRef (connect s) = wsRef s \<and>
      timers (connect s) = timers s \<and> nextTimer (connect s) = nextTimer s) \<and>
   (token_missing (token s) \<and> isMountedRef s \<and> timers s = [] \<and>
    list_all (\<lambda>r. r = CLOSED) (sockets s) \<and>
    (\<forall>e \<in> set es. e \<noteq> Mount \<and> e \<noteq> Reconnect) \<longrightarrow>
      status (run parse es (connect s)) = ''disconnected'' \<and>
      sockets (run parse es (connect s)) = sockets s \<and>
      timers (run parse es (connect s)) = [] \<and>
      nextTimer (run parse es (connect s)) = nextTimer s)"
proof -
  have a: "token_missing (token s) \<longrightarrow>
      connect s = (if isMountedRef s then s\<lparr>status := ''disconnected''\<rparr> else s) \<and>
      sockets (connect s) = sockets s \<and> wsRef (connect s) = wsRef s \<and>
      timers (connect s) = timers s \<and> nextTimer (connect s) = nextTimer s"
    by (simp add: connect_def)
  have b: "status (run parse es (connect s)) = ''disconnected'' \<and>
      sockets (run parse es (connect s)) = sockets s \<and>
      timers (run parse es (connect s)) = [] \<and>
      nextTimer (run parse es (connect s)) = nextTimer s"
    if h: "token_missing (token s)" "isMountedRef s" "timers s = []"
      "list_all (\<lambda>r. r = CLOSED) (sockets s)"
      "\<forall>e \<in> set es. e \<noteq> Mount \<and> e \<noteq> Reconnect"
  proof -
    have "idle (connect s)" using h(1-4) by (simp add: idle_def connect_def)
    from run_idle [OF this h(5), of parse] h(1)
    show ?thesis by (simp add: idle_def connect_def)
  qed
  from a b show ?thesis by blast
qed

theorem connect_without_token_witness:
  "token_missing (token demo_logged_out) \<and> isMountedRef demo_logged_out \<and>
   status (advance 1000 demo_logged_out) = ''disconnected'' \<and>
   timers (advance 1000 demo_logged_out) = [] \<and>
   list_all (\<lambda>r. r = CLOSED) (sockets (advance 1000 demo_logged_out)) \<and>
   list_all (\<lambda>e. e \<noteq> Mount \<and> e \<noteq> Reconnect) demo_quiet \<and>
   status (run parse0 demo_quiet (connect (advance 1000 demo_logged_out))) = ''disconnected'' \<and>
   sockets (run parse0 demo_quiet (connect (advance 1000 demo_logged_out))) = [CLOSED] \<and>
   timers (run parse0 demo_quiet (connect (advance 1000 demo_logged_out))) = [] \<and>
   sockets (run parse0 demo_quiet (mount_effect (hook_init None :: unit hook))) = []"
proof -
  let ?s = "advance 1000 demo_logged_out"
  have v: "token_missing (token demo_logged_out)" "isMountedRef demo_logged_out"
    "token_missing (token ?s)" "isMountedRef ?s" "timers ?s = []"
    "list_all (\<lambda>r. r = CLOSED) (sockets ?s)" "status ?s = ''disconnected''"
    "sockets ?s = [CLOSED]"
    by (simp_all add: demo_logged_out_def demo_mounted_def mount_effect_def hook_init_def
        connect_def token_missing_def ready_def onclose_def advance_def reconnect_delay_def
        Let_def)
  have h: "\<forall>e \<in> set demo_quiet. e \<noteq> Mount \<and> e \<noteq> Reconnect" by (simp add: demo_quiet_def)
  let ?i = "(hook_init None :: unit hook)"
  have i: "token_missing (token ?i)" "isMountedRef ?i" "timers ?i = []"
    "list_all (\<lambda>r. r = CLOSED) (sockets ?i)" "sockets ?i = []"
    "mount_effect ?i = connect ?i"
    by (simp_all add: hook_init_def token_missing_def mount_effect_def)
  from connect_without_token [of ?s demo_quiet parse0] v(3-6) h
  have "status (run parse0 demo_quiet (connect ?s)) = ''disconnected'' \<and>
    sockets (run parse0 demo_quiet (connect ?s)) = sockets ?s \<and>
    timers (run parse0 demo_quiet (connect ?s)) = []"
    by blast
  with v(8) have 1: "status (run parse0 demo_quiet (connect ?s)) = ''disconnected''"
    "sockets (run parse0 demo_quiet (connect ?s)) = [CLOSED]"
    "timers (run parse0 demo_quiet (connect ?s)) = []"
    by simp_all
  from connect_without_token [of ?i demo_quiet parse0] i(1-4) h
  have "sockets (run parse0 demo_quiet (connect ?i)) = sockets ?i" by blast
  with i(5,6) have 2: "sockets (run parse0 demo_quiet (mount_effect ?i)) = []" by simp
  from 1 2 v h show ?thesis by (simp add: list_all_iff)
qed

section \<open>Display smoother: the debounce\<close>

subsection \<open>The invariant of a card\<close>

lemma card_mount_inv: "card_inv (card_mount raw)"
  by (simp add: card_inv_def card_mount_def card_init_def debounce_effect_def OFFLINE_GRACE_MS_def)

lemma card_elapse_none [simp]:
  "offline_timers s = [] \<Longrightarrow> card_elapse d s = s\<lparr>now := now s + d\<rparr>"
  by (simp add: card_elapse_def)

lemma card_elapse_one_pending [simp]:
  "offline_timers s = [(h, t)] \<Longrightarrow> now s + d < t \<Longrightarrow> card_elapse d s = s\<lparr>now := now s + d\<rparr>"
  by (simp add: card_elapse_def)

lemma card_elapse_one_due [simp]:
  "offline_timers s = [(h, t)] \<Longrightarrow> \<not> now s + d < t \<Longrightarrow>
     card_elapse d s = s\<lparr>now := now s + d, offline_timers := [], isOnline := False, offlineTimerRef := None\<rparr>"
  by (simp add: card_elapse_def offline_timeout_def)

lemma card_step_inv: "card_inv s \<Longrightarrow> card_inv (card_step e s)"
proof (cases e)
  case (Render raw)
  assume "card_inv s"
  then show ?thesis using Render
    by (auto simp: card_inv_def debounce_effect_def clearTimeout_def OFFLINE_GRACE_MS_def
        split: option.splits list.splits if_splits)
next
  case (Elapse d)
  assume inv: "card_inv s"
  show ?thesis
  proof (cases "offline_timers s")
    case Nil
    with inv Elapse show ?thesis by (auto simp: card_inv_def split: option.splits if_splits)
  next
    case (Cons p ps)
    with inv obtain h t where one: "offline_timers s = [(h, t)]"
      and ref: "offlineTimerRef s = Some h" and um: "\<not> unmounted s" and lr: "\<not> lastRawOnline s"
      by (auto simp: card_inv_def split: option.splits list.splits if_splits)
    show ?thesis
    proof (cases "now s + d < t")
      case True
      with one ref um lr Elapse show ?thesis by (simp add: card_inv_def)
    next
      case False
      with one ref um lr Elapse show ?thesis by (simp add: card_inv_def)
    qed
  qed
next
  case Remove
  assume "card_inv s"
  then show ?thesis using Remove
    by (auto simp: card_inv_def card_unmount_def clearTimeout_def
        split: option.splits list.splits if_splits)
qed

lemma card_run_inv: "card_inv s \<Longrightarrow> card_inv (card_run es s)"
  by (induction es arbitrary: s) (simp_all add: card_step_inv)

lemma card_reachable_inv: "card_inv (card_run es (card_mount raw))"
  by (rule card_run_inv [OF card_mount_inv])

lemma raw_true_state:
  assumes "card_inv s" "\<not> unmounted s" "lastRawOnline s"
  shows "isOnline s \<and> offline_timers s = [] \<and> offlineTimerRef s = None"
  using assms by (auto simp: card_inv_def split: option.splits)

subsection \<open>A drop shorter than the grace period\<close>

lemma card_step_safe:
  assumes "safe T s" and "e \<noteq> Remove" and "now s + elapsed [e] < T"
  shows "safe T (card_step e s) \<and> now (card_step e s) = now s + elapsed [e]"
proof (cases e)
  case (Render raw)
  with assms(1) show ?thesis
    by (auto simp: safe_def debounce_effect_def clearTimeout_def split: option.splits)
next
  case (Elapse d)
  from assms(1,3) Elapse have "filter (\<lambda>(h, t). t \<le> now s + d) (offline_timers s) = []"
    by (auto simp: safe_def filter_empty_conv)
  moreover from assms(1,3) Elapse
  have "filter (\<lambda>(h, t). \<not> t \<le> now s + d) (offline_timers s) = offline_timers s"
    by (auto simp: safe_def filter_id_conv)
  ultimately show ?thesis using assms(1) Elapse
    by (simp add: card_elapse_def safe_def)
next
  case Remove
  with assms(2) show ?thesis by simp
qed

lemma elapsed_Cons: "elapsed (e # es) = elapsed [e] + elapsed es"
  by (cases e) simp_all

lemma card_run_safe:
  assumes "safe T s" and "Remove \<notin> set es" and "now s + elapsed es < T"
  shows "safe T (card_run es s)"
  using assms
proof (induction es arbitrary: s)
  case Nil
  then show ?case by simp
next
  case (Cons e es)
  from Cons.prems have e: "e \<noteq> Remove" and es: "Remove \<notin> set es" by auto
  from Cons.prems(3) have t: "now s + elapsed [e] + elapsed es < T"
    by (subst (asm) elapsed_Cons) simp
  then have "now s + elapsed [e] < T" by simp
  from card_step_safe [OF Cons.prems(1) e this]
  have s1: "safe T (card_step e s)" and n1: "now (card_step e s) = now s + elapsed [e]"
    by simp_all
  from t n1 have "now (card_step e s) + elapsed es < T" by simp
  from Cons.IH [OF s1 es this] show ?case by simp
qed

text \<open>
  Claim C2. Take a mounted card whose raw flag is true. If the flag becomes false and
  then less than 12000 ms pass in total, whatever is rendered in between, the card shows
  online at every moment of that period. And whenever a raw true arrives at a mounted
  card, the card shows online at once, with no timer left pending and the ref cleared.
\<close>

theorem brief_offline_never_shown:
  assumes "s = card_run es0 (card_mount raw0)" and "\<not> unmounted s"
  shows "(lastRawOnline s \<and> Remove \<notin> set es \<and> elapsed es < OFFLINE_GRACE_MS \<longrightarrow>
            isOnline (card_run (Render False # es) s) \<and>
            status_dot (card_run (Render False # es) s) = ''online'') \<and>
         isOnline (card_step (Render True) s) \<and>
         offline_timers (card_step (Render True) s) = [] \<and>
         offlineTimerRef (card_step (Render True) s) = None \<and>
         now (card_step (Render True) s) = now s \<and>
         OFFLINE_GRACE_MS = 12000"
proof -
  have inv: "card_inv s" unfolding assms(1) by (rule card_reachable_inv)
  have a: "isOnline (card_run (Render False # es) s) \<and>
            status_dot (card_run (Render False # es) s) = ''online''"
    if h: "lastRawOnline s" "Remove \<notin> set es" "elapsed es < OFFLINE_GRACE_MS"
  proof -
    note base = raw_true_state [OF inv assms(2) h(1)]
    have "safe (now s + 12000) s"
      using base assms(2) by (simp add: safe_def OFFLINE_GRACE_MS_def)
    moreover have "Remove \<notin> set (Render False # es)" using h(2) by simp
    moreover have "now s + elapsed (Render False # es) < now s + 12000"
      using h(3) by (simp add: OFFLINE_GRACE_MS_def)
    ultimately have "safe (now s + 12000) (card_run (Render False # es) s)"
      by (rule card_run_safe)
    then show ?thesis by (simp add: safe_def status_dot_def)
  qed
  have b: "isOnline (card_step (Render True) s) \<and>
         offline_timers (card_step (Render True) s) = [] \<and>
         offlineTimerRef (card_step (Render True) s) = None \<and>
         now (card_step (Render True) s) = now s"
    using inv assms(2)
    by (auto simp: card_inv_def debounce_effect_def clearTimeout_def split: option.splits)
  have c: "OFFLINE_GRACE_MS = 12000" by (simp add: OFFLINE_GRACE_MS_def)
  from a b c show ?thesis by blast
qed

theorem brief_offline_never_shown_witness:
  "\<not> unmounted (card_mount True) \<and> lastRawOnline (card_mount True) \<and>
   Remove \<notin> set demo_flicker \<and> elapsed demo_flicker < OFFLINE_GRACE_MS \<and>
   status_dot (card_run (Render False # demo_flicker) (card_mount True)) = ''online'' \<and>
   isOnline (card_step (Render True) (card_run (Render False # demo_flicker) (card_mount True))) \<and>
   offline_timers
     (card_step (Render True) (card_run (Render False # demo_flicker) (card_mount True))) = []"
proof -
  have h0: "card_mount True = card_run [] (card_mount True)" by simp
  have h1: "\<not> unmounted (card_mount True)" "lastRawOnline (card_mount True)"
    by (simp_all add: card_mount_def card_init_def debounce_effect_def)
  have h2: "Remove \<notin> set demo_flicker" "elapsed demo_flicker < OFFLINE_GRACE_MS"
    by (simp_all add: demo_flicker_def OFFLINE_GRACE_MS_def)
  let ?s = "card_run (Render False # demo_flicker) (card_mount True)"
  have h3: "?s = card_run (Render False # demo_flicker) (card_mount True)" by simp
  have h4: "\<not> unmounted ?s"
    by (simp add: demo_flicker_def card_mount_def card_init_def debounce_effect_def
        card_elapse_def OFFLINE_GRACE_MS_def)
  from brief_offline_never_shown [OF h0 h1(1), of demo_flicker] h1 h2
  have a: "status_dot ?s = ''online''" by blast
  from brief_offline_never_shown [OF h3 h4, of "[]"]
  have b: "isOnline (card_step (Render True) ?s)" "offline_timers (card_step (Render True) ?s) = []"
    by blast+
  from a b h1 h2 show ?thesis by blast
qed

subsection \<open>A drop that lasts\<close>

lemma fired_run:
  assumes "\<not> unmounted x" "\<not> lastRawOnline x" "offline_timers x = []" "\<not> isOnline x"
    and "\<forall>e \<in> set es. stays_false e"
  shows "\<not> isOnline (card_run es x) \<and> offline_timers (card_run es x) = [] \<and>
         next_handle (card_run es x) = next_handle x \<and> now (card_run es x) = now x + elapsed es"
  using assms
proof (induction es arbitrary: x)
  case Nil
  then show ?case by simp
next
  case (Cons e es)
  show ?case
  proof (cases e)
    case (Render raw)
    with Cons.prems have "card_step e x = x" by simp
    with Cons Render show ?thesis by simp
  next
    case (Elapse d)
    with Cons.prems have st: "card_step e x = x\<lparr>now := now x + d\<rparr>" by simp
    from Cons.IH [of "x\<lparr>now := now x + d\<rparr>"] Cons.prems Elapse st show ?thesis by simp
  next
    case Remove
    with Cons.prems show ?thesis by simp
  qed
qed

lemma pending_run:
  assumes "\<not> unmounted x" "\<not> lastRawOnline x" "offline_timers x = [(H, D)]"
    "offlineTimerRef x = Some H" "isOnline x" "now x < D"
    and "\<forall>e \<in> set es. stays_false e"
  shows "next_handle (card_run es x) = next_handle x \<and>
         now (card_run es x) = now x + elapsed es \<and>
         (isOnline (card_run es x) \<longleftrightarrow> now x + elapsed es < D) \<and>
         offline_timers (card_run es x) = (if now x + elapsed es < D then [(H, D)] else [])"
  using assms
proof (induction es arbitrary: x)
  case Nil
  then show ?case by simp
next
  case (Cons e es)
  from Cons.prems have rest: "\<forall>e \<in> set es. stays_false e" by simp
  show ?case
  proof (cases e)
    case (Render raw)
    with Cons.prems have "card_step e x = x" by simp
    with Cons Render show ?thesis by simp
  next
    case (Elapse d)
    show ?thesis
    proof (cases "now x + d < D")
      case True
      with Cons.prems Elapse have st: "card_step e x = x\<lparr>now := now x + d\<rparr>" by simp
      from Cons.IH [of "x\<lparr>now := now x + d\<rparr>"] Cons.prems True rest
      show ?thesis unfolding card_run.simps st using Elapse by (simp add: add.assoc)
    next
      case False
      with Cons.prems Elapse
      have st: "card_step e x = x\<lparr>now := now x + d, offline_timers := [], isOnline := False,
                  offlineTimerRef := None\<rparr>" by simp
      from fired_run [of "x\<lparr>now := now x + d, offline_timers := [], isOnline := False,
                  offlineTimerRef := None\<rparr>" es] Cons.prems rest False
      show ?thesis unfolding card_run.simps st using Elapse by (simp add: add.assoc)
    qed
  next
    case Remove
    with Cons.prems show ?thesis by simp
  qed
qed

text \<open>
  Claim C3. Take a mounted card whose raw flag is true; it shows online. When the flag
  becomes false one timer is started, due 12000 ms later. As long as no raw true arrives,
  whatever false updates are rendered and however time is split, the card shows online
  while less than 12000 ms have passed and offline from 12000 ms on; the timer stays the
  one that was started, with its deadline, until it fires, and no other timer is ever
  started.
\<close>

theorem sustained_offline_shown_once:
  assumes "s = card_run es0 (card_mount raw0)" and "\<not> unmounted s" and "lastRawOnline s"
    and "\<forall>e \<in> set es. stays_false e"
  shows "isOnline s \<and>
         offline_timers (card_step (Render False) s) =
           [(next_handle s, now s + OFFLINE_GRACE_MS)] \<and>
         (isOnline (card_run es (card_step (Render False) s)) \<longleftrightarrow>
            elapsed es < OFFLINE_GRACE_MS) \<and>
         (status_dot (card_run es (card_step (Render False) s)) = ''offline'' \<longleftrightarrow>
            OFFLINE_GRACE_MS \<le> elapsed es) \<and>
         offline_timers (card_run es (card_step (Render False) s)) =
           (if elapsed es < OFFLINE_GRACE_MS
            then [(next_handle s, now s + OFFLINE_GRACE_MS)] else []) \<and>
         next_handle (card_run es (card_step (Render False) s)) = next_handle s + 1 \<and>
         OFFLINE_GRACE_MS = 12000"
proof -
  have inv: "card_inv s" unfolding assms(1) by (rule card_reachable_inv)
  note base = raw_true_state [OF inv assms(2,3)]
  let ?x = "card_step (Render False) s"
  have x: "?x = s\<lparr> lastRawOnline := False,
              offline_timers := [(next_handle s, now s + 12000)],
              next_handle := next_handle s + 1,
              offlineTimerRef := Some (next_handle s) \<rparr>"
    using base assms(2,3) by (simp add: debounce_effect_def OFFLINE_GRACE_MS_def)
  have p: "\<not> unmounted ?x" "\<not> lastRawOnline ?x"
    "offline_timers ?x = [(next_handle s, now s + 12000)]"
    "offlineTimerRef ?x = Some (next_handle s)" "isOnline ?x" "now ?x < now s + 12000"
    "next_handle ?x = next_handle s + 1" "now ?x = now s"
    unfolding x using base assms(2) by simp_all
  from pending_run [OF p(1-6) assms(4)] p(7,8) base p(3)
  show ?thesis by (simp add: status_dot_def OFFLINE_GRACE_MS_def)
qed

theorem sustained_offline_shown_once_witness:
  "\<not> unmounted (card_mount True) \<and> lastRawOnline (card_mount True) \<and>
   list_all stays_false demo_outage \<and> list_all stays_false (demo_outage @ [Elapse 1]) \<and>
   status_dot (card_run demo_outage (card_step (Render False) (card_mount True))) = ''online'' \<and>
   status_dot (card_run (demo_outage @ [Elapse 1]) (card_step (Render False) (card_mount True)))
     = ''offline'' \<and>
   offline_timers (card_run (demo_outage @ [Elapse 1]) (card_step (Render False) (card_mount True)))
     = [] \<and>
   next_handle (card_run (demo_outage @ [Elapse 1]) (card_step (Render False) (card_mount True)))
     = 2"
proof -
  have h0: "card_mount True = card_run [] (card_mount True)" by simp
  have h1: "\<not> unmounted (card_mount True)" "lastRawOnline (card_mount True)"
    "next_handle (card_mount True) = 1"
    by (simp_all add: card_mount_def card_init_def debounce_effect_def)
  have h2: "\<forall>e \<in> set demo_outage. stays_false e"
    "\<forall>e \<in> set (demo_outage @ [Elapse 1]). stays_false e"
    by (simp_all add: demo_outage_def)
  have e: "elapsed demo_outage = 11999" "elapsed (demo_outage @ [Elapse 1]) = 12000"
    by (simp_all add: demo_outage_def)
  note a = sustained_offline_shown_once [OF h0 h1(1,2) h2(1)]
  note b = sustained_offline_shown_once [OF h0 h1(1,2) h2(2)]
  from a e(1)
  have 1: "isOnline (card_run demo_outage (card_step (Render False) (card_mount True)))"
    by (simp add: OFFLINE_GRACE_MS_def)
  from b e(2) h1(3)
  have 2: "status_dot (card_run (demo_outage @ [Elapse 1])
             (card_step (Render False) (card_mount True))) = ''offline''"
    "offline_timers (card_run (demo_outage @ [Elapse 1])
             (card_step (Render False) (card_mount True))) = []"
    "next_handle (card_run (demo_outage @ [Elapse 1])
             (card_step (Render False) (card_mount True))) = 2"
    by (simp_all add: OFFLINE_GRACE_MS_def)
  from 1 2 h1 h2 show ?thesis by (simp add: status_dot_def list_all_iff)
qed

subsection \<open>A card mounted offline\<close>

lemma unmounted_run:
  assumes "unmounted x" and "offline_timers x = []"
  shows "isOnline (card_run es x) = isOnline x \<and> offline_timers (card_run es x) = [] \<and>
         unmounted (card_run es x)"
  using assms
proof (induction es arbitrary: x)
  case Nil
  then show ?case by simp
next
  case (Cons e es)
  then show ?case by (cases e) simp_all
qed

lemma mounted_false_run:
  assumes "card_inv x" "\<not> isOnline x" and "\<forall>e \<in> set es. e \<noteq> Render True"
  shows "\<not> isOnline (card_run es x)"
  using assms
proof (induction es arbitrary: x)
  case Nil
  then show ?case by simp
next
  case (Cons e es)
  have "\<not> isOnline (card_step e x)"
  proof (cases e)
    case (Render raw)
    with Cons.prems show ?thesis by (cases raw) (simp_all add: debounce_effect_def split: option.splits)
  next
    case (Elapse d)
    have "\<not> isOnline ((offline_timeout ^^ n) y)" if "\<not> isOnline y" for n y
      using that by (induction n) (simp_all add: offline_timeout_def)
    with Cons.prems(2) Elapse show ?thesis by (simp add: card_elapse_def Let_def)
  next
    case Remove
    with Cons.prems show ?thesis by (simp add: card_unmount_def)
  qed
  moreover have "card_inv (card_step e x)" using Cons.prems(1) by (rule card_step_inv)
  ultimately show ?case using Cons by simp
qed

text \<open>
  Claim C10. The displayed state starts as the raw flag of the first render. A card
  mounted with a false raw flag (also when the flag is false only by default) shows
  offline on its first render and after its effects, at time 0, and keeps showing
  offline as long as no raw true arrives.
\<close>

theorem offline_at_mount_shown_at_once:
  "isOnline (card_init raw) = raw \<and>
   body (card_init False) = OFFLINE_text \<and> status_dot (card_init False) = ''offline'' \<and>
   body (card_mount False) = OFFLINE_text \<and> status_dot (card_mount False) = ''offline'' \<and>
   now (card_mount False) = 0 \<and>
   ((\<forall>e \<in> set es. e \<noteq> Render True) \<longrightarrow> body (card_run es (card_mount False)) = OFFLINE_text) \<and>
   (rawOnline metrics server = False \<longrightarrow>
      body (card_init (rawOnline metrics server)) = OFFLINE_text) \<and>
   rawOnline None \<lparr>srv_is_online = None\<rparr> = False"
proof -
  have m: "\<not> isOnline (card_mount False)"
    by (simp add: card_mount_def card_init_def debounce_effect_def)
  have "\<not> isOnline (card_run es (card_mount False))" if "\<forall>e \<in> set es. e \<noteq> Render True"
    using card_mount_inv m that by (rule mounted_false_run)
  then show ?thesis using m
    by (simp add: card_init_def body_def status_dot_def card_mount_def debounce_effect_def
        rawOnline_def)
qed

theorem offline_at_mount_shown_at_once_witness:
  "list_all (\<lambda>e. e \<noteq> Render True) demo_still_down \<and>
   rawOnline None \<lparr>srv_is_online = Some False\<rparr> = False \<and>
   body (card_init (rawOnline None \<lparr>srv_is_online = Some False\<rparr>)) = OFFLINE_text \<and>
   body (card_run demo_still_down (card_mount False)) = OFFLINE_text"
proof -
  have h1: "\<forall>e \<in> set demo_still_down. e \<noteq> Render True" by (simp add: demo_still_down_def)
  have h2: "rawOnline None \<lparr>srv_is_online = Some False\<rparr> = False" by (simp add: rawOnline_def)
  from offline_at_mount_shown_at_once
    [of False demo_still_down None "\<lparr>srv_is_online = Some False\<rparr>"] h1 h2
  show ?thesis by (simp add: list_all_iff)
qed

section \<open>Teardown\<close>

subsection \<open>A hook mounted once\<close>

lemma life_mount: "life (mount_effect (hook_init tok))"
  by (simp add: life_def mount_effect_def connect_def hook_init_def)

lemma life_connect:
  assumes "life s" and "\<forall>i < length (sockets s). sockets s ! i = CLOSED" and "timers s = []"
  shows "life (connect s)"
  using assms by (auto simp: life_def connect_def nth_append)

lemma only_live:
  assumes "life s" and "k < length (sockets s)" and "sockets s ! k \<noteq> CLOSED"
  shows "timers s = []" and "\<forall>i < length (sockets s). i \<noteq> k \<longrightarrow> sockets s ! i = CLOSED"
  using assms by (auto simp: life_def)

lemma ready_SomeD: "ready s k = Some r \<Longrightarrow> k < length (sockets s) \<and> sockets s ! k = r"
  by (simp add: ready_def split: if_splits)

lemma life_open:
  assumes "life s" and "ready s k = Some CONNECTING"
  shows "life (onopen (s\<lparr>sockets := (sockets s)[k := OPEN]\<rparr>))"
proof -
  from ready_SomeD [OF assms(2)] have k: "k < length (sockets s)" "sockets s ! k = CONNECTING"
    by simp_all
  then have "sockets s ! k \<noteq> CLOSED" by simp
  note o = only_live [OF assms(1) k(1) this]
  from assms(1) k have w: "wsRef s = Some k" "isMountedRef s" by (auto simp: life_def)
  show ?thesis using o w k by (auto simp: life_def onopen_def nth_list_update)
qed

lemma life_error:
  assumes "life s"
  shows "life (onerror k s)"
proof (cases "k < length (sockets s) \<and> (sockets s ! k = CONNECTING \<or> sockets s ! k = OPEN)")
  case True
  then have k: "k < length (sockets s)" and "sockets s ! k \<noteq> CLOSED" by auto
  note o = only_live [OF assms k this(2)]
  from assms have "isMountedRef s" by (simp add: life_def)
  then show ?thesis using o True
    by (auto simp: life_def onerror_def ws_close_def nth_list_update)
next
  case False
  with assms show ?thesis by (auto simp: life_def onerror_def ws_close_def)
qed

lemma life_close:
  assumes "life s" and "ready s k \<in> {Some CONNECTING, Some OPEN, Some CLOSING}"
  shows "life (onclose (s\<lparr>sockets := (sockets s)[k := CLOSED]\<rparr>))"
proof -
  from assms(2) have k: "k < length (sockets s)" "sockets s ! k \<noteq> CLOSED"
    by (auto dest: ready_SomeD)
  note o = only_live [OF assms(1) k]
  from assms(1) have "isMountedRef s" by (simp add: life_def)
  then show ?thesis using o k
    by (auto simp: life_def onclose_def Let_def nth_list_update)
qed

lemma life_advance:
  assumes "life s"
  shows "life (advance d s)"
proof (cases "timers s")
  case Nil
  with assms show ?thesis by (simp add: advance_def life_def)
next
  case (Cons p ps)
  with assms obtain h t where one: "timers s = [(h, t)]"
    and closed: "\<forall>i < length (sockets s). sockets s ! i = CLOSED"
    by (auto simp: life_def)
  show ?thesis
  proof (cases "t \<le> clock s + d")
    case True
    have "life (s\<lparr>clock := clock s + d, timers := []\<rparr>)"
      using assms closed by (simp add: life_def)
    then have "life (connect (s\<lparr>clock := clock s + d, timers := []\<rparr>))"
      using closed by (intro life_connect) simp_all
    with one True show ?thesis by (simp add: advance_def)
  next
    case False
    with one assms show ?thesis by (simp add: advance_def life_def)
  qed
qed

lemma step_life:
  assumes "life s" and "from_browser e"
  shows "life (step parse e s)"
proof (cases e)
  case (SetToken t)
  with assms show ?thesis by (simp add: life_def)
next
  case (SockOpen k)
  with assms show ?thesis by (simp add: life_open)
next
  case (SockMessage k p)
  with assms show ?thesis by (simp add: life_def onmessage_def split: option.splits)
next
  case (SockError k)
  with assms show ?thesis by (simp add: life_error)
next
  case (SockClose k)
  with assms(1) show ?thesis using life_close [of s k] by simp
next
  case (Advance d)
  with assms show ?thesis by (simp add: life_advance)
qed (use assms in simp_all)

lemma run_life:
  assumes "life s" and "\<forall>e \<in> set es. from_browser e"
  shows "life (run parse es s)"
  using assms by (induction es arbitrary: s) (simp_all add: step_life)

lemma life_teardown:
  assumes "life s"
  shows "timers (cleanup s) = []"
    and "\<forall>i < length (sockets (cleanup s)). sockets (cleanup s) ! i \<in> {CLOSING, CLOSED}"
proof -
  from assms show "timers (cleanup s) = []"
    by (auto simp: life_def cleanup_def close_current_keeps clearTimeout_def split: option.splits)
  show "\<forall>i < length (sockets (cleanup s)). sockets (cleanup s) ! i \<in> {CLOSING, CLOSED}"
  proof (intro allI impI)
    fix i assume "i < length (sockets (cleanup s))"
    then have i: "i < length (sockets s)" by (simp add: cleanup_def close_current_keeps)
    show "sockets (cleanup s) ! i \<in> {CLOSING, CLOSED}"
    proof (cases "sockets s ! i = CONNECTING \<or> sockets s ! i = OPEN")
      case True
      with assms i have "wsRef s = Some i" by (auto simp: life_def)
      with True i show ?thesis
        by (auto simp: cleanup_def close_current_def ws_close_def)
    next
      case False
      then have c: "sockets s ! i \<in> {CLOSING, CLOSED}" by (cases "sockets s ! i") simp_all
      show ?thesis
      proof (cases "wsRef s")
        case None
        with c show ?thesis by (simp add: cleanup_def close_current_def)
      next
        case (Some k)
        with c i False show ?thesis
          by (auto simp: cleanup_def close_current_def ws_close_def nth_list_update)
      qed
    qed
  qed
qed

subsection \<open>A hook that is not mounted\<close>

lemma connect_pow_down: "\<not> isMountedRef s \<Longrightarrow> (connect ^^ n) s = s"
  by (induction n) (simp_all add: connect_def)

lemma advance_down:
  "\<not> isMountedRef s \<Longrightarrow>
     advance d s = s\<lparr>clock := clock s + d,
                     timers := filter (\<lambda>(h, t). \<not> t \<le> clock s + d) (timers s)\<rparr>"
  by (simp add: advance_def Let_def connect_pow_down)

lemma cleanup_fields:
  "\<not> isMountedRef (cleanup s)"
  "wsRef (cleanup s) = None"
  "length (sockets (cleanup s)) = length (sockets s)"
  "timers (cleanup s) = clearTimeout (reconnectTimeoutRef s) (timers s)"
  by (simp_all add: cleanup_def close_current_def ws_close_def split: option.splits)

lemma step_down:
  assumes "\<not> isMountedRef s" and "e \<noteq> Mount"
  shows "\<not> isMountedRef (step parse e s) \<and>
         length (sockets (step parse e s)) = length (sockets s) \<and>
         nextTimer (step parse e s) = nextTimer s \<and>
         set (timers (step parse e s)) \<subseteq> set (timers s) \<and>
         retryCountRef (step parse e s) = retryCountRef s \<and>
         data (step parse e s) = data s \<and>
         (status (step parse e s) = status s \<or> status (step parse e s) = ''disconnected'')"
proof (cases e)
  case Unmount
  with assms show ?thesis
    by (auto simp: cleanup_fields cleanup_keeps clearTimeout_def split: option.splits)
next
  case Disconnect
  with assms show ?thesis
    by (auto simp: disconnect_def cleanup_fields cleanup_keeps clearTimeout_def
        split: option.splits)
next
  case (Advance d)
  with assms show ?thesis by (auto simp: advance_down)
qed (use assms in \<open>simp_all add: connect_def onopen_def onmessage_def onclose_def onerror_def
       ws_close_def\<close>)

lemma either_chain: "y = x \<or> y = d \<Longrightarrow> z = y \<or> z = d \<Longrightarrow> z = x \<or> z = d"
  by auto

lemma run_down:
  assumes "\<not> isMountedRef s" and "Mount \<notin> set es"
  shows "\<not> isMountedRef (run parse es s) \<and>
         length (sockets (run parse es s)) = length (sockets s) \<and>
         nextTimer (run parse es s) = nextTimer s \<and>
         set (timers (run parse es s)) \<subseteq> set (timers s) \<and>
         retryCountRef (run parse es s) = retryCountRef s \<and>
         data (run parse es s) = data s \<and>
         (status (run parse es s) = status s \<or> status (run parse es s) = ''disconnected'')"
  using assms
proof (induction es arbitrary: s)
  case Nil
  then show ?case by simp
next
  case (Cons e es)
  from Cons.prems have e: "e \<noteq> Mount" and es: "Mount \<notin> set es" by auto
  note a = step_down [OF Cons.prems(1) e, of parse]
  then have "\<not> isMountedRef (step parse e s)" by simp
  note b = Cons.IH [OF this es]
  from a b have "set (timers (run parse es (step parse e s))) \<subseteq> set (timers s)"
    by blast
  moreover have "status (run parse es (step parse e s)) = status s \<or>
      status (run parse es (step parse e s)) = ''disconnected''"
    using a b by - (rule either_chain [of "status (step parse e s)" "status s"], simp_all)
  ultimately show ?case using a b by simp

qed

lemma teardown_cases:
  assumes "t = cleanup \<or> t = disconnect"
  shows "\<not> isMountedRef (t s)" "wsRef (t s) = None"
    "sockets (t s) = sockets (cleanup s)" "timers (t s) = timers (cleanup s)"
    "nextTimer (t s) = nextTimer s" "retryCountRef (t s) = retryCountRef s"
    "data (t s) = data s"
  using assms by (auto simp: disconnect_def cleanup_fields cleanup_keeps)

lemma card_remove:
  assumes "card_inv c" and "\<not> unmounted c"
  shows "offline_timers (card_step Remove c) = [] \<and> unmounted (card_step Remove c) \<and>
         isOnline (card_step Remove c) = isOnline c"
  using assms
  by (auto simp: card_inv_def card_unmount_def clearTimeout_def split: option.splits)

text \<open>
  Claim C7 as stated does not hold of every run. The hook clears only the timer that
  \<open>reconnectTimeoutRef\<close> holds. Two sockets can be alive at once: when the effect is
  run, cleaned up and run again while the first socket is still closing (React's strict
  mode, which \<open>main.jsx\<close> turns on, does this in development), or when the exported
  \<open>reconnect\<close> is called while a timer is pending. Each close then schedules a timer and
  the ref keeps the later one. After the final cleanup the earlier timer is still
  pending, and it fires at its deadline; its callback \<open>connect\<close> then returns at the
  mounted check.
\<close>

theorem orphan_timer_fires_after_unmount:
  "\<not> isMountedRef (run parse0 demo_remount (hook_init (Some ''t''))) \<and>
   timers (run parse0 demo_remount (hook_init (Some ''t''))) = [(1, 1000)] \<and>
   clock (run parse0 demo_remount (hook_init (Some ''t''))) = 0 \<and>
   timers (run parse0 (demo_remount @ [Advance 999]) (hook_init (Some ''t''))) = [(1, 1000)] \<and>
   timers (run parse0 (demo_remount @ [Advance 1000]) (hook_init (Some ''t''))) = [] \<and>
   \<not> isMountedRef (run parse0 demo_reconnect_call (hook_init (Some ''t''))) \<and>
   timers (run parse0 demo_reconnect_call (hook_init (Some ''t''))) = [(1, 1000)] \<and>
   timers (run parse0 (demo_reconnect_call @ [Advance 1000]) (hook_init (Some ''t''))) = []"
  by (simp add: demo_remount_def demo_reconnect_call_def hook_init_def mount_effect_def
      connect_def token_missing_def cleanup_def close_current_def ws_close_def
      clearTimeout_def ready_def onclose_def reconnect_delay_def advance_def Let_def)

text \<open>
  Claim C7, amended. Teardown is the effect cleanup or the exported \<open>disconnect\<close>. After
  it the hook is marked unmounted, \<open>wsRef\<close> is empty, the timer that
  \<open>reconnectTimeoutRef\<close> held is no longer pending and the socket that \<open>wsRef\<close> held is
  closing or closed. From then on, until a new mount, no event constructs a socket or
  schedules a timer, the retry counter and the data stay as they were, the status can
  only become disconnected, and \<open>connect\<close>, the callback of every timer, does nothing.
  When the hook was mounted once and has seen only browser events, no timer at all is
  pending after teardown, none ever is again, and every socket is closing or closed. A
  mounted card that is removed has no pending timer afterwards, and its displayed state
  never changes again.
\<close>

theorem teardown_stops_reconnecting:
  assumes "t = cleanup \<or> t = disconnect" and "Mount \<notin> set es"
  shows "\<not> isMountedRef (t s) \<and> wsRef (t s) = None \<and>
    (\<forall>h. reconnectTimeoutRef s = Some h \<longrightarrow> h \<notin> fst ` set (timers (t s))) \<and>
    (\<forall>k. wsRef s = Some k \<and> k < length (sockets s) \<longrightarrow>
       sockets (t s) ! k \<in> {CLOSING, CLOSED}) \<and>
    length (sockets (run parse es (t s))) = length (sockets s) \<and>
    nextTimer (run parse es (t s)) = nextTimer s \<and>
    retryCountRef (run parse es (t s)) = retryCountRef s \<and>
    data (run parse es (t s)) = data s \<and>
    (status (run parse es (t s)) = status (t s) \<or>
     status (run parse es (t s)) = ''disconnected'') \<and>
    connect (run parse es (t s)) = run parse es (t s) \<and>
    (s = run parse es0 (mount_effect (hook_init tok)) \<and> (\<forall>e \<in> set es0. from_browser e) \<longrightarrow>
       timers (run parse es (t s)) = [] \<and>
       (\<forall>i < length (sockets (t s)). sockets (t s) ! i \<in> {CLOSING, CLOSED})) \<and>
    (c = card_run ces0 (card_mount raw0) \<and> \<not> unmounted c \<longrightarrow>
       offline_timers (card_run ces (card_step Remove c)) = [] \<and>
       isOnline (card_run ces (card_step Remove c)) = isOnline c)"
proof -
  note td = teardown_cases [OF assms(1), of s]
  note rd = run_down [OF td(1) assms(2), of parse]
  have m: "\<not> isMountedRef (t s)" and w: "wsRef (t s) = None" by (fact td)+
  have a: "\<forall>h. reconnectTimeoutRef s = Some h \<longrightarrow> h \<notin> fst ` set (timers (t s))"
    by (auto simp: td cleanup_fields clearTimeout_def)
  have b: "\<forall>k. wsRef s = Some k \<and> k < length (sockets s) \<longrightarrow>
       sockets (t s) ! k \<in> {CLOSING, CLOSED}"
  proof (intro allI impI)
    fix k assume "wsRef s = Some k \<and> k < length (sockets s)"
    then show "sockets (t s) ! k \<in> {CLOSING, CLOSED}"
      by (cases "sockets s ! k") (simp_all add: td cleanup_def close_current_def ws_close_def)
  qed
  have r1: "length (sockets (run parse es (t s))) = length (sockets s)"
    using rd by (simp add: td cleanup_fields)
  have r2: "nextTimer (run parse es (t s)) = nextTimer s" using rd by (simp add: td)
  have r3: "retryCountRef (run parse es (t s)) = retryCountRef s" using rd by (simp add: td)
  have r4: "data (run parse es (t s)) = data s" using rd by (simp add: td)
  have r5: "status (run parse es (t s)) = status (t s) \<or>
     status (run parse es (t s)) = ''disconnected''" using rd by blast
  have c1: "connect (run parse es (t s)) = run parse es (t s)"
    using rd by (simp add: connect_def)
  have d: "s = run parse es0 (mount_effect (hook_init tok)) \<and> (\<forall>e \<in> set es0. from_browser e) \<longrightarrow>
       timers (run parse es (t s)) = [] \<and>
       (\<forall>i < length (sockets (t s)). sockets (t s) ! i \<in> {CLOSING, CLOSED})"
  proof (intro impI, elim conjE)
    assume h: "s = run parse es0 (mount_effect (hook_init tok))" "\<forall>e \<in> set es0. from_browser e"
    have "life s" unfolding h(1) using life_mount h(2) by (rule run_life)
    note lt = life_teardown [OF this]
    from rd lt(1) have "timers (run parse es (t s)) = []" by (simp add: td)
    moreover from lt(2)
    have "\<forall>i < length (sockets (t s)). sockets (t s) ! i \<in> {CLOSING, CLOSED}"
      by (simp add: td)
    ultimately show "timers (run parse es (t s)) = [] \<and>
       (\<forall>i < length (sockets (t s)). sockets (t s) ! i \<in> {CLOSING, CLOSED})" by (rule conjI)
  qed
  have e: "c = card_run ces0 (card_mount raw0) \<and> \<not> unmounted c \<longrightarrow>
       offline_timers (card_run ces (card_step Remove c)) = [] \<and>
       isOnline (card_run ces (card_step Remove c)) = isOnline c"
  proof (intro impI, elim conjE)
    assume h: "c = card_run ces0 (card_mount raw0)" "\<not> unmounted c"
    have "card_inv c" unfolding h(1) by (rule card_reachable_inv)
    note r = card_remove [OF this h(2)]
    from r have "unmounted (card_step Remove c)" "offline_timers (card_step Remove c) = []"
      by simp_all
    from unmounted_run [OF this, of ces] r
    show "offline_timers (card_run ces (card_step Remove c)) = [] \<and>
       isOnline (card_run ces (card_step Remove c)) = isOnline c" by simp
  qed
  show ?thesis by (intro conjI; fact)
qed

theorem teardown_stops_reconnecting_witness:
  "Mount \<notin> set demo_after \<and> list_all from_browser [SockClose 0] \<and>
   timers demo_closed_once = [(1, 1000)] \<and>
   timers (cleanup demo_closed_once) = [] \<and>
   timers (run parse0 demo_after (cleanup demo_closed_once)) = [] \<and>
   length (sockets (run parse0 demo_after (cleanup demo_closed_once))) = 1 \<and>
   nextTimer (run parse0 demo_after (disconnect demo_closed_once)) = 2 \<and>
   offline_timers demo_grace = [(1, 12000)] \<and> \<not> unmounted demo_grace \<and>
   offline_timers (card_run [Elapse 60000] (card_step Remove demo_grace)) = [] \<and>
   isOnline (card_run [Elapse 60000] (card_step Remove demo_grace))"
proof -
  have h1: "Mount \<notin> set demo_after" "Mount \<notin> set []" by (simp_all add: demo_after_def)
  have h2: "\<forall>e \<in> set [SockClose 0]. from_browser e" by simp
  have s: "demo_closed_once = run parse0 [SockClose 0] (mount_effect (hook_init (Some ''t'')))"
    by (simp add: demo_closed_once_def)
  have v: "timers demo_closed_once = [(1, 1000)]" "length (sockets demo_closed_once) = 1"
    "nextTimer demo_closed_once = 2"
    by (simp_all add: demo_closed_once_def mount_effect_def hook_init_def connect_def
        token_missing_def ready_def onclose_def reconnect_delay_def Let_def)
  have c: "demo_grace = card_run [Render False, Elapse 3000] (card_mount True)"
    by (simp add: demo_grace_def)
  have g: "offline_timers demo_grace = [(1, 12000)]" "\<not> unmounted demo_grace" "isOnline demo_grace"
    by (simp_all add: demo_grace_def card_mount_def card_init_def debounce_effect_def
        card_elapse_def OFFLINE_GRACE_MS_def)
  note a = teardown_stops_reconnecting [where t = cleanup and es = demo_after
      and s = demo_closed_once and parse = parse0 and ?es0.0 = "[SockClose 0]"
      and tok = "Some ''t''" and c = demo_grace and ?ces0.0 = "[Render False, Elapse 3000]"
      and ?raw0.0 = True and ces = "[Elapse 60000]", OF _ h1(1)]
  note b = teardown_stops_reconnecting [where t = disconnect and es = demo_after
      and s = demo_closed_once and parse = parse0 and ?es0.0 = "[SockClose 0]"
      and tok = "Some ''t''" and c = demo_grace and ?ces0.0 = "[Render False, Elapse 3000]"
      and ?raw0.0 = True and ces = "[Elapse 60000]", OF _ h1(1)]
  note a0 = teardown_stops_reconnecting [where t = cleanup and es = "[]"
      and s = demo_closed_once and parse = parse0 and ?es0.0 = "[SockClose 0]"
      and tok = "Some ''t''" and c = demo_grace and ?ces0.0 = "[Render False, Elapse 3000]"
      and ?raw0.0 = True and ces = "[Elapse 60000]", OF _ h1(2)]
  from a s h2 c g v
  have 1: "timers (run parse0 demo_after (cleanup demo_closed_once)) = []"
    "length (sockets (run parse0 demo_after (cleanup demo_closed_once))) = 1"
    "offline_timers (card_run [Elapse 60000] (card_step Remove demo_grace)) = []"
    "isOnline (card_run [Elapse 60000] (card_step Remove demo_grace))"
    by simp_all
  from b v have 2: "nextTimer (run parse0 demo_after (disconnect demo_closed_once)) = 2"
    by simp
  from a0 s h2 have 3: "timers (cleanup demo_closed_once) = []" by simp
  from 1 2 3 v g h1 show ?thesis by simp
qed

section \<open>Metric history: the bound\<close>

lemma push_history_eq:
  "push_history prev point = drop (length prev - 59) prev @ [point]"
  by (simp add: push_history_def slice_last_def MAX_HISTORY_def Let_def)

lemma push_history_length:
  "length (push_history prev point) = min (length prev + 1) 60"
  by (auto simp: push_history_eq)


lemma history_effect_cases:
  "history_effect mk_point w v h = h \<or>
   (\<exists>m. history_effect mk_point w v h = push_history h (mk_point m))"
  by (auto simp: history_effect_def split: option.splits)

lemma history_effect_bounded:
  "length h \<le> 60 \<Longrightarrow> length (history_effect mk_point w v h) \<le> 60"
  using history_effect_cases [of mk_point w v h]
  by (auto simp: push_history_length)








section \<open>Server-side liveness: the threshold\<close>

lemma polls_snoc: "polls (rs @ [r]) s = poll_update r (polls rs s)"
  by (induction rs arbitrary: s) simp_all

lemma polls_count:
  "consecutive_failures (polls rs (liveness_registered b)) = trailing_failures rs \<and>
   (is_online (polls rs (liveness_registered b)) \<longrightarrow>
      consecutive_failures (polls rs (liveness_registered b)) < 3)"
proof (induction rs rule: rev_induct)
  case Nil
  show ?case by (simp add: liveness_registered_def trailing_failures_def)
next
  case (snoc r rs)
  then show ?case
    by (cases r) (auto simp: polls_snoc trailing_failures_def Let_def OFFLINE_THRESHOLD_def)
qed

lemma trailing_two:
  assumes "trailing_failures rs = 2"
  shows "\<exists>rs'. rs = rs' @ [Poll_failure, Poll_failure]"
proof -
  have f: "x = Poll_failure" if "is_failure x" for x :: "'a poll_result"
    using that by (cases x) simp_all
  from assms have len: "length (takeWhile is_failure (rev rs)) = 2"
    by (simp add: trailing_failures_def)
  then obtain x y where xy: "takeWhile is_failure (rev rs) = [x, y]"
    by (cases "takeWhile is_failure (rev rs)" rule: list.exhaust)
       (auto simp: length_Suc_conv)
  have "x \<in> set (takeWhile is_failure (rev rs))" "y \<in> set (takeWhile is_failure (rev rs))"
    by (simp_all add: xy)
  then have "is_failure x" "is_failure y" by (auto dest: set_takeWhileD)
  then have x: "x = Poll_failure" and y: "y = Poll_failure" by (auto dest: f)
  have "rev rs = takeWhile is_failure (rev rs) @ dropWhile is_failure (rev rs)" by simp
  then have "rev rs = [Poll_failure, Poll_failure] @ dropWhile is_failure (rev rs)"
    by (simp only: xy x y)
  then have "rs = rev (dropWhile is_failure (rev rs)) @ [Poll_failure, Poll_failure]"
    by (metis rev_append rev_rev_ident rev.simps(2) rev.simps(1) append_Cons append_Nil)
  then show ?thesis by blast
qed

text \<open>
  Claim C4. A poll turns an online agent offline only if it is a failure that brings the
  failure count to the threshold or beyond; for an agent polled since its registration
  the count is then exactly 3 and the two polls before were failures too. A successful
  poll sets the agent online and the count to 0, whatever they were.
\<close>

theorem offline_only_after_three_failures:
  "(is_online s \<and> \<not> is_online (poll_update r s) \<longrightarrow>
      r = Poll_failure \<and> OFFLINE_THRESHOLD \<le> consecutive_failures (poll_update r s)) \<and>
   is_online (poll_update (Poll_success t m) s) \<and>
   consecutive_failures (poll_update (Poll_success t m) s) = 0 \<and>
   (is_online (polls rs (liveness_registered b)) \<and>
    \<not> is_online (poll_update r (polls rs (liveness_registered b))) \<longrightarrow>
      r = Poll_failure \<and>
      consecutive_failures (poll_update r (polls rs (liveness_registered b))) = 3 \<and>
      (\<exists>rs'. rs = rs' @ [Poll_failure, Poll_failure]))"
proof -
  have a: "is_online s \<and> \<not> is_online (poll_update r s) \<longrightarrow>
      r = Poll_failure \<and> OFFLINE_THRESHOLD \<le> consecutive_failures (poll_update r s)"
    by (cases r) (auto simp: Let_def split: if_splits)
  have b: "is_online (poll_update (Poll_success t m) s) \<and>
   consecutive_failures (poll_update (Poll_success t m) s) = 0" by simp
  have c: "is_online (polls rs (liveness_registered b)) \<and>
    \<not> is_online (poll_update r (polls rs (liveness_registered b))) \<longrightarrow>
      r = Poll_failure \<and>
      consecutive_failures (poll_update r (polls rs (liveness_registered b))) = 3 \<and>
      (\<exists>rs'. rs = rs' @ [Poll_failure, Poll_failure])"
  proof (intro impI, elim conjE)
    let ?s = "polls rs (liveness_registered b :: 'a liveness)"
    assume on: "is_online ?s" and off: "\<not> is_online (poll_update r ?s)"
    from off have r: "r = Poll_failure" by (cases r) simp_all
    from polls_count [of rs b] on
    have lt: "consecutive_failures ?s < 3" and tr: "consecutive_failures ?s = trailing_failures rs"
      by simp_all
    from off on r have "3 \<le> consecutive_failures ?s + 1"
      by (simp add: Let_def OFFLINE_THRESHOLD_def split: if_splits)
    with lt have two: "consecutive_failures ?s = 2" by simp
    with tr have "trailing_failures rs = 2" by simp
    then have "\<exists>rs'. rs = rs' @ [Poll_failure, Poll_failure]" by (rule trailing_two)
    moreover from two r have "consecutive_failures (poll_update r ?s) = 3" by (simp add: Let_def)
    ultimately show "r = Poll_failure \<and>
      consecutive_failures (poll_update r ?s) = 3 \<and>
      (\<exists>rs'. rs = rs' @ [Poll_failure, Poll_failure])" using r by blast
  qed
  from a b c show ?thesis by blast
qed

theorem offline_only_after_three_failures_witness:
  "is_online (polls demo_three_failures (liveness_registered False)) \<and>
   \<not> is_online (poll_update Poll_failure (polls demo_three_failures (liveness_registered False))) \<and>
   consecutive_failures
     (poll_update Poll_failure (polls demo_three_failures (liveness_registered False))) = 3 \<and>
   is_online (poll_update (Poll_success 9 ())
     (poll_update Poll_failure (polls demo_three_failures (liveness_registered False))))"
proof -
  let ?s = "polls demo_three_failures (liveness_registered False)"
  have on: "is_online ?s"
    by (simp add: demo_three_failures_def liveness_registered_def Let_def OFFLINE_THRESHOLD_def)
  have off: "\<not> is_online (poll_update Poll_failure ?s)"
    by (simp add: demo_three_failures_def liveness_registered_def Let_def OFFLINE_THRESHOLD_def)
  note a = offline_only_after_three_failures
    [of ?s Poll_failure 9 "()" demo_three_failures False]
  note b = offline_only_after_three_failures
    [of "poll_update Poll_failure ?s" Poll_failure 9 "()" demo_three_failures False]
  from a on off
  have "consecutive_failures (poll_update Poll_failure ?s) = 3" by blast
  moreover from b
  have "is_online (poll_update (Poll_success 9 ()) (poll_update Poll_failure ?s))" by blast
  ultimately show ?thesis using on off by blast
qed

end
